theory Spec2Isabelle
  imports Main "HOL-Library.Word"
begin

unbundle bit_operations_syntax

section \<open>The filesystem and the input stream\<close>

text \<open>
  A path is the string \<open>fs::path::string()\<close> gives. A file is the bytes a reader gets
  from it, and whether the device reports an error after them instead of end-of-file
  (a directory opened for reading is such a file with no bytes). Permission bits are
  kept beside the files, per path.
\<close>

type_synonym byte = "8 word"
type_synonym path = string

record file_node =
  bytes :: "byte list"
  io_error :: bool

text \<open>
  \<open>boost::nowide::ifstream\<close>, as far as \<open>calculateSha256\<close> uses it: the bytes not yet
  read, the three state bits of \<open>std::ios\<close> and the count of the last read.
\<close>

record ifstream =
  rest :: "byte list"
  faulty :: bool
  eofbit :: bool
  failbit :: bool
  badbit :: bool
  gcount :: nat

text \<open>Opening a path that holds no file sets \<open>failbit\<close>.\<close>

definition ifstream_open :: "file_node option \<Rightarrow> ifstream" where
  "ifstream_open fo =
     (case fo of
        None \<Rightarrow> \<lparr>rest = [], faulty = False, eofbit = False, failbit = True,
                 badbit = False, gcount = 0\<rparr>
      | Some f \<Rightarrow> \<lparr>rest = bytes f, faulty = io_error f, eofbit = False, failbit = False,
                   badbit = False, gcount = 0\<rparr>)"

text \<open>\<open>operator bool\<close> of a stream is \<open>!fail()\<close>; \<open>fail()\<close> is \<open>failbit || badbit\<close>.\<close>

definition stream_ok :: "ifstream \<Rightarrow> bool" where
  "stream_ok s = (\<not> failbit s \<and> \<not> badbit s)"

definition eof :: "ifstream \<Rightarrow> bool" where
  "eof s = eofbit s"

text \<open>
  \<open>ifs.read(buffer, n)\<close>. On a stream that is not good nothing is extracted and
  \<open>failbit\<close> is set. Otherwise up to \<open>n\<close> bytes overwrite the front of the buffer,
  the bytes of the buffer behind them stay as they were; when fewer than \<open>n\<close> bytes are
  left the stream sets \<open>eofbit\<close> and \<open>failbit\<close>, or \<open>badbit\<close> when the device failed.
\<close>

definition read :: "ifstream \<Rightarrow> byte list \<Rightarrow> nat \<Rightarrow> ifstream \<times> byte list" where
  "read s buffer n =
     (if eofbit s \<or> failbit s \<or> badbit s then (s\<lparr>failbit := True, gcount := 0\<rparr>, buffer)
      else if n \<le> length (rest s) then
        (s\<lparr>rest := drop n (rest s), gcount := n\<rparr>,
         take n (rest s) @ drop n buffer)
      else
        (if faulty s
         then s\<lparr>rest := [], gcount := length (rest s), badbit := True\<rparr>
         else s\<lparr>rest := [], gcount := length (rest s), eofbit := True, failbit := True\<rparr>,
         rest s @ drop (length (rest s)) buffer))"

section \<open>The message digest and its hexadecimal form\<close>

text \<open>
  The OpenSSL digest context is outside the repository. A context stands for the bytes
  it has been fed; \<open>EVP_DigestFinal_ex\<close> writes the digest of those bytes, most
  significant byte first. The digest function itself, \<open>EVP_sha256()\<close>, is a parameter
  \<open>md\<close> of the model: a function from a byte string to a 256-bit value, so that
  \<open>md_len\<close> is 32.
\<close>

type_synonym EVP_MD = "byte list \<Rightarrow> 256 word"
type_synonym EVP_MD_CTX = "byte list"

definition EVP_DigestInit_ex :: "EVP_MD_CTX" where
  "EVP_DigestInit_ex = []"

definition EVP_DigestUpdate :: "EVP_MD_CTX \<Rightarrow> byte list \<Rightarrow> nat \<Rightarrow> EVP_MD_CTX" where
  "EVP_DigestUpdate mdctx d cnt = mdctx @ take cnt d"

definition EVP_DigestFinal_ex :: "EVP_MD \<Rightarrow> EVP_MD_CTX \<Rightarrow> byte list" where
  "EVP_DigestFinal_ex md mdctx =
     map (\<lambda>i. ucast (drop_bit (8 * (31 - i)) (md mdctx))) [0..<32]"

text \<open>\<open>boost::algorithm::hex\<close> writes two upper-case digits per byte.\<close>

definition hex_digit :: "nat \<Rightarrow> char" where
  "hex_digit n = ''0123456789ABCDEF'' ! n"

definition hex :: "byte list \<Rightarrow> string" where
  "hex bs = concat (map (\<lambda>b. [hex_digit (unat b div 16), hex_digit (unat b mod 16)]) bs)"

text \<open>\<open>::tolower\<close> in the C locale.\<close>

definition tolower :: "char \<Rightarrow> char" where
  "tolower c =
     (if 65 \<le> (of_char c :: nat) \<and> (of_char c :: nat) \<le> 90
      then char_of ((of_char c :: nat) + 32) else c)"

section \<open>Errors\<close>

text \<open>
  Every failure of the code is a \<open>Module::ProcessingError\<close> with a message. The kind
  names the place that throws it: no master URIs (\<open>ConfigError\<close>), the download
  (\<open>DownloadError\<close>), the digest of the downloaded file (\<open>IntegrityError\<close>) and reading
  a file for its digest (\<open>ReadError\<close>).
\<close>

datatype kind = ConfigError | DownloadError | IntegrityError | ReadError

datatype error = ProcessingError kind string

section \<open>calculateSha256\<close>

definition CHUNK_SIZE :: nat where
  "CHUNK_SIZE = 0x8000"

text \<open>
  The loop \<open>while (ifs.read(buffer, CHUNK_SIZE)) EVP_DigestUpdate(mdctx, buffer, CHUNK_SIZE)\<close>.
  It returns the stream, the buffer and the context as the failed read leaves them.
\<close>

function read_chunks :: "ifstream \<Rightarrow> byte list \<Rightarrow> EVP_MD_CTX \<Rightarrow> ifstream \<times> byte list \<times> EVP_MD_CTX" where
  "read_chunks ifs buffer mdctx =
     (if stream_ok (fst (read ifs buffer CHUNK_SIZE))
      then read_chunks (fst (read ifs buffer CHUNK_SIZE)) (snd (read ifs buffer CHUNK_SIZE))
             (EVP_DigestUpdate mdctx (snd (read ifs buffer CHUNK_SIZE)) CHUNK_SIZE)
      else (fst (read ifs buffer CHUNK_SIZE), snd (read ifs buffer CHUNK_SIZE), mdctx))"
  by pat_completeness auto
termination
  by (relation "measure (\<lambda>(ifs, buffer, mdctx). length (rest ifs))")
     (auto simp: read_def stream_ok_def CHUNK_SIZE_def split: if_splits)

declare read_chunks.simps [simp del]

text \<open>
  \<open>calculateSha256(path)\<close>. The stack buffer is not initialised: what it holds at first
  is the parameter \<open>buffer\<close>. \<open>fo\<close> is what the filesystem holds at \<open>path\<close>.
\<close>

definition calculateSha256 :: "EVP_MD \<Rightarrow> byte list \<Rightarrow> path \<Rightarrow> file_node option \<Rightarrow> error + string" where
  "calculateSha256 md buffer path fo =
     (case read_chunks (ifstream_open fo) buffer EVP_DigestInit_ex of
        (ifs, buffer', mdctx) \<Rightarrow>
          if \<not> eof ifs
          then Inl (ProcessingError ReadError (''Error while reading '' @ path))
          else Inr (map tolower
                 (hex (EVP_DigestFinal_ex md (EVP_DigestUpdate mdctx buffer' (gcount ifs))))))"

section \<open>The collaborators outside the repository\<close>

text \<open>
  A request of \<open>leatherman::curl\<close>: the URL and the two timeouts in milliseconds.
\<close>

record request =
  req_url :: string
  req_connection_timeout :: "32 word"
  req_timeout :: "32 word"

text \<open>
  What \<open>client.download_file(req, file_path, resp, perms)\<close> does, seen from the caller:
  it returns with a response (status code and body), or it throws
  \<open>http_file_download_exception\<close>, or it throws another \<open>http_request_exception\<close>
  (\<open>http_curl_setup_exception\<close>, \<open>http_file_operation_exception\<close>). Each carries the
  text of \<open>what()\<close>.
\<close>

datatype download_result =
    Response nat string
  | Http_file_download_exception string
  | Http_request_exception string

text \<open>
  On the filesystem the transport touches the path it was given and no other: it leaves
  there the file \<open>written\<close>, with the permissions asked for, or leaves the path as it
  was.
\<close>

record attempt =
  written :: "file_node option"
  result :: download_result

text \<open>
  The parts of the platform the code calls and the repository does not hold. The client
  has a state \<open>'c\<close> of its own, which \<open>download_file\<close> may change. \<open>unique_path\<close> is the
  name \<open>fs::unique_path("temp_task_%%%%-%%%%-%%%%-%%%%")\<close> returns for this call, and
  \<open>stack_buffer\<close> what the uninitialised buffer of \<open>calculateSha256\<close> holds.
\<close>

record 'c externals =
  EVP_sha256 :: EVP_MD
  curl_escaped_string :: "string \<Rightarrow> string"
  download_file :: "'c \<Rightarrow> request \<Rightarrow> path \<Rightarrow> nat \<Rightarrow> attempt \<times> 'c"
  unique_path :: string
  stack_buffer :: "byte list"

text \<open>
  The state a call works on: the files and their permission bits, the state of the client,
  the requests handed to the client so far and the warnings logged so far.
\<close>

record 'c world =
  files :: "path \<rightharpoonup> file_node"
  perms :: "path \<rightharpoonup> nat"
  client :: 'c
  requests :: "request list"
  warnings :: "string list"

text \<open>
  Modelled from the spec: \<open>NIX_DIR_PERMS\<close> is defined in \<open>pxp-agent/configuration\<close>, which
  is not among the sources. The spec gives the policy as owner read/write/execute and
  group read/execute, octal 750.
\<close>

definition NIX_DIR_PERMS :: nat where
  "NIX_DIR_PERMS = 488"

definition NIX_TASK_FILE_PERMS :: nat where
  "NIX_TASK_FILE_PERMS = NIX_DIR_PERMS"

subsection \<open>boost::filesystem\<close>

definition exists :: "'c world \<Rightarrow> path \<Rightarrow> bool" where
  "exists w p = (files w p \<noteq> None)"

definition permissions :: "path \<Rightarrow> nat \<Rightarrow> 'c world \<Rightarrow> 'c world" where
  "permissions p prms w = w\<lparr>perms := (perms w)(p \<mapsto> prms)\<rparr>"

definition remove :: "path \<Rightarrow> 'c world \<Rightarrow> 'c world" where
  "remove p w = w\<lparr>files := (files w)(p := None), perms := (perms w)(p := None)\<rparr>"

text \<open>Renaming a path onto itself changes nothing; otherwise the file moves, with its bits.\<close>

definition rename :: "path \<Rightarrow> path \<Rightarrow> 'c world \<Rightarrow> 'c world" where
  "rename old_p new_p w =
     (if old_p = new_p then w
      else w\<lparr>files := (files w)(new_p := files w old_p, old_p := None),
             perms := (perms w)(new_p := perms w old_p, old_p := None)\<rparr>)"

text \<open>
  \<open>cache_dir / name\<close> for a name that is not empty and does not start with a separator,
  as the unique name is: a separator is put between the two unless the directory is empty
  or ends with one.
\<close>

definition path_append :: "path \<Rightarrow> path \<Rightarrow> path" where
  "path_append dir name =
     (if dir = [] \<or> last dir = CHR ''/'' then dir @ name else dir @ ''/'' @ name)"

text \<open>
  \<open>fs::path(name).filename()\<close>, for a name that does not end with a separator: what
  follows the last separator.
\<close>

definition path_filename :: "path \<Rightarrow> path" where
  "path_filename p = rev (takeWhile (\<lambda>c. c \<noteq> CHR ''/'') (rev p))"

text \<open>
  A \<open>fs::path\<close> put into a message is written as \<open>boost::io::quoted\<close> does, between
  double quotes and with \<open>&\<close> before every double quote and every \<open>&\<close> in it.
\<close>

definition quoted :: "path \<Rightarrow> string" where
  "quoted p =
     [CHR 0x22] @ concat (map (\<lambda>c. if c = CHR 0x22 \<or> c = CHR ''&'' then [CHR ''&'', c] else [c]) p)
       @ [CHR 0x22]"

text \<open>A status code in a message: its decimal digits.\<close>

fun digits :: "nat \<Rightarrow> string" where
  "digits n =
     (if n < 10 then [''0123456789'' ! n] else digits (n div 10) @ [''0123456789'' ! (n mod 10)])"

declare digits.simps [simp del]

section \<open>createUrlEndpoint\<close>

text \<open>
  The \<open>uri\<close> of a file: its path and, when the key is there, the members of \<open>params\<close> in the
  order of the document. \<open>keys()\<close> lists the names of all members; \<open>get\<close> finds the first
  member of a name.
\<close>

record uri_json =
  uri_path :: string
  uri_params :: "(string \<times> string) list option"

definition keys :: "(string \<times> string) list \<Rightarrow> string list" where
  "keys params = map fst params"

definition get_string :: "(string \<times> string) list \<Rightarrow> string \<Rightarrow> string" where
  "get_string params key = (case map_of params key of Some v \<Rightarrow> v | None \<Rightarrow> [])"

definition createUrlEndpoint :: "'c externals \<Rightarrow> uri_json \<Rightarrow> string" where
  "createUrlEndpoint ext uri =
     (let url = uri_path uri;
          params = (case uri_params uri of None \<Rightarrow> [] | Some ps \<Rightarrow> ps)
      in if params = [] then url
         else butlast
           (fold (\<lambda>key url. url @ curl_escaped_string ext key @ ''=''
                      @ curl_escaped_string ext (get_string params key) @ ''&'')
              (keys params) (url @ ''?'')))"

section \<open>downloadFileWithCurl\<close>

text \<open>The exception that leaves the \<open>try\<close> block, if one does.\<close>

datatype thrown = No_exception | File_download string | Request string

definition try_block :: "string \<Rightarrow> download_result \<Rightarrow> thrown" where
  "try_block url r =
     (case r of
        Response status_code body \<Rightarrow>
          if status_code \<ge> 400
          then File_download (url @ '' returned a response with HTTP status '' @ digits status_code
                 @ ''. Response body: '' @ body)
          else No_exception
      | Http_file_download_exception what \<Rightarrow> File_download what
      | Http_request_exception what \<Rightarrow> Request what)"

text \<open>The call of the client: the request is noted, and the file it wrote is on the filesystem.\<close>

definition call_download_file ::
  "'c externals \<Rightarrow> request \<Rightarrow> path \<Rightarrow> nat \<Rightarrow> 'c world \<Rightarrow> download_result \<times> 'c world" where
  "call_download_file ext req file_path prms w =
     (case download_file ext (client w) req file_path prms of
        (att, c') \<Rightarrow>
          (result att,
           case written att of
             None \<Rightarrow> w\<lparr>client := c', requests := requests w @ [req]\<rparr>
           | Some f \<Rightarrow> w\<lparr>files := (files w)(file_path \<mapsto> f),
                         perms := (perms w)(file_path \<mapsto> prms),
                         client := c', requests := requests w @ [req]\<rparr>))"

definition LOG_WARNING :: "string \<Rightarrow> 'c world \<Rightarrow> 'c world" where
  "LOG_WARNING msg w = w\<lparr>warnings := warnings w @ [msg]\<rparr>"

definition warning_text :: "string \<Rightarrow> string \<Rightarrow> string" where
  "warning_text master_uri what =
     ''Downloading the task file from the master-uri '' @ [CHR 0x27] @ master_uri @ [CHR 0x27]
       @ '' failed. Reason: '' @ what"

text \<open>
  The request of one pass: \<open>lth_curl::request req(url)\<close> with the two timeouts, which are
  multiplied in \<open>uint32_t\<close>.
\<close>

definition make_request :: "string \<Rightarrow> string \<Rightarrow> 32 word \<Rightarrow> 32 word \<Rightarrow> request" where
  "make_request master_uri endpoint connect_timeout_s timeout_s =
     \<lparr>req_url = master_uri @ endpoint,
      req_connection_timeout = connect_timeout_s * 1000,
      req_timeout = timeout_s * 1000\<rparr>"

text \<open>
  The loop over \<open>master_uris\<close>, from the \<open>result\<close> tuple and the world it has reached.
\<close>

fun download_loop ::
  "'c externals \<Rightarrow> 32 word \<Rightarrow> 32 word \<Rightarrow> path \<Rightarrow> string \<Rightarrow> string list \<Rightarrow> bool \<times> string
     \<Rightarrow> 'c world \<Rightarrow> (error + bool \<times> string) \<times> 'c world" where
  "download_loop ext connect_timeout_s timeout_s file_path endpoint [] res w = (Inr res, w)"
| "download_loop ext connect_timeout_s timeout_s file_path endpoint (master_uri # uris) res w =
     (let req = make_request master_uri endpoint connect_timeout_s timeout_s
      in case call_download_file ext req file_path NIX_TASK_FILE_PERMS w of
        (r, w1) \<Rightarrow>
          (case try_block (req_url req) r of
             Request what \<Rightarrow>
               (Inl (ProcessingError DownloadError
                  (''Downloading the task file failed. Reason: '' @ what)), w1)
           | File_download what \<Rightarrow>
               (let w2 = LOG_WARNING (warning_text master_uri what) w1
                in if exists w2 file_path then (Inr (True, what), w2)
                   else download_loop ext connect_timeout_s timeout_s file_path endpoint uris
                          (fst res, what) w2)
           | No_exception \<Rightarrow>
               if exists w1 file_path then (Inr (True, snd res), w1)
               else download_loop ext connect_timeout_s timeout_s file_path endpoint uris res w1))"

definition downloadFileWithCurl ::
  "'c externals \<Rightarrow> string list \<Rightarrow> 32 word \<Rightarrow> 32 word \<Rightarrow> path \<Rightarrow> uri_json \<Rightarrow> 'c world
     \<Rightarrow> (error + bool \<times> string) \<times> 'c world" where
  "downloadFileWithCurl ext master_uris connect_timeout_s timeout_s file_path uri w =
     download_loop ext connect_timeout_s timeout_s file_path (createUrlEndpoint ext uri)
       master_uris (False, '''') w"

section \<open>downloadFileFromMaster\<close>

text \<open>
  The task file of a request: the members \<open>filename\<close>, \<open>sha256\<close> and \<open>uri\<close> of the JSON
  object.
\<close>

record file_json =
  file_filename :: string
  file_sha256 :: string
  file_uri :: uri_json

text \<open>
  The condition of the first \<open>if\<close>: \<open>fs::exists(destination) && sha256 ==
  calculateSha256(destination.string())\<close>. The digest is computed only of a
  destination that exists, and its exception leaves the function.
\<close>

definition already_cached :: "'c externals \<Rightarrow> path \<Rightarrow> string \<Rightarrow> 'c world \<Rightarrow> error + bool" where
  "already_cached ext destination sha256 w =
     (if exists w destination
      then case calculateSha256 (EVP_sha256 ext) (stack_buffer ext) destination
                  (files w destination) of
             Inl e \<Rightarrow> Inl e
           | Inr d \<Rightarrow> Inr (sha256 = d)
      else Inr False)"

text \<open>The function from the check of \<open>master_uris\<close> on: lines 48 to 76.\<close>

definition download_and_install ::
  "'c externals \<Rightarrow> string list \<Rightarrow> 32 word \<Rightarrow> 32 word \<Rightarrow> path \<Rightarrow> path \<Rightarrow> file_json
     \<Rightarrow> 'c world \<Rightarrow> (error + path) \<times> 'c world" where
  "download_and_install ext master_uris connect_timeout timeout cache_dir destination file w =
     (if master_uris = []
      then (Inl (ProcessingError ConfigError
                   ''Cannot download task. No master-uris were provided''), w)
      else
        let tempname = path_append cache_dir (unique_path ext) in
        case downloadFileWithCurl ext master_uris connect_timeout timeout tempname
               (file_uri file) w of
          (Inl e, w1) \<Rightarrow> (Inl e, w1)
        | (Inr download_result, w1) \<Rightarrow>
            if \<not> fst download_result
            then (Inl (ProcessingError DownloadError
                         (''Downloading the task file '' @ file_filename file
                            @ '' failed after trying all the available master-uris. ''
                            @ ''Most recent error message: '' @ snd download_result)), w1)
            else
              (case calculateSha256 (EVP_sha256 ext) (stack_buffer ext) tempname
                      (files w1 tempname) of
                 Inl e \<Rightarrow> (Inl e, w1)
               | Inr d \<Rightarrow>
                   if file_sha256 file \<noteq> d
                   then (Inl (ProcessingError IntegrityError
                                (''The downloaded file ''
                                   @ quoted (path_filename (file_filename file))
                                   @ '' has a SHA that differs from the provided SHA'')),
                         remove tempname w1)
                   else (Inr destination, rename tempname destination w1)))"

definition downloadFileFromMaster ::
  "'c externals \<Rightarrow> string list \<Rightarrow> 32 word \<Rightarrow> 32 word \<Rightarrow> path \<Rightarrow> path \<Rightarrow> file_json
     \<Rightarrow> 'c world \<Rightarrow> (error + path) \<times> 'c world" where
  "downloadFileFromMaster ext master_uris connect_timeout timeout cache_dir destination file w =
     (case already_cached ext destination (file_sha256 file) w of
        Inl e \<Rightarrow> (Inl e, w)
      | Inr True \<Rightarrow> (Inr destination, permissions destination NIX_TASK_FILE_PERMS w)
      | Inr False \<Rightarrow>
          download_and_install ext master_uris connect_timeout timeout cache_dir destination
            file w)"

section \<open>What the claims speak of\<close>

text \<open>
  The lower-case hexadecimal form of a digest, written without the code's detour over
  upper case: the 32 bytes of the 256-bit value, most significant first, two digits each.
\<close>

definition lower_hex_digit :: "nat \<Rightarrow> char" where
  "lower_hex_digit n = ''0123456789abcdef'' ! n"

definition digest_bytes :: "256 word \<Rightarrow> byte list" where
  "digest_bytes d = map (\<lambda>i. ucast (drop_bit (8 * (31 - i)) d)) [0..<32]"

definition lower_hex :: "byte list \<Rightarrow> string" where
  "lower_hex bs = concat (map (\<lambda>b. [lower_hex_digit (unat b div 16), lower_hex_digit (unat b mod 16)]) bs)"

definition sha256_hex :: "EVP_MD \<Rightarrow> byte list \<Rightarrow> string" where
  "sha256_hex md bs = lower_hex (digest_bytes (md bs))"

text \<open>
  Strings joined with a separator between them and none after the last, and the
  \<open>key=value\<close> pairs of a parameter mapping, each side encoded on its own.
\<close>

fun join :: "string \<Rightarrow> string list \<Rightarrow> string" where
  "join sep [] = []"
| "join sep [x] = x"
| "join sep (x # y # ys) = x @ sep @ join sep (y # ys)"

definition encoded_pairs :: "(string \<Rightarrow> string) \<Rightarrow> (string \<times> string) list \<Rightarrow> string list" where
  "encoded_pairs esc ps = map (\<lambda>(k, v). esc k @ ''='' @ esc v) ps"

text \<open>
  The two classes of failure of one attempt, by what the code catches. A failure is local
  to the mirror when the response has a status of 400 or more or the client throws
  \<open>http_file_download_exception\<close>; it is fatal when the client throws another
  \<open>http_request_exception\<close>, which the code's comment names as the exceptions of the
  setup of curl and of file operations. \<open>failure_text\<close> is the message of a failure.
\<close>

definition mirror_local :: "download_result \<Rightarrow> bool" where
  "mirror_local r =
     (case r of Response status_code body \<Rightarrow> 400 \<le> status_code
      | Http_file_download_exception what \<Rightarrow> True
      | Http_request_exception what \<Rightarrow> False)"

definition fatal :: "download_result \<Rightarrow> bool" where
  "fatal r = (case r of Http_request_exception what \<Rightarrow> True | _ \<Rightarrow> False)"

definition failure_text :: "string \<Rightarrow> download_result \<Rightarrow> string" where
  "failure_text url r =
     (case r of
        Response status_code body \<Rightarrow>
          url @ '' returned a response with HTTP status '' @ digits status_code
            @ ''. Response body: '' @ body
      | Http_file_download_exception what \<Rightarrow> what
      | Http_request_exception what \<Rightarrow> what)"

section \<open>A platform to run the functions on\<close>

text \<open>
  An instance of the collaborators, small enough to evaluate: an encoder that keeps the
  unreserved characters and writes every other as \<open>%XX\<close>, a stand-in for the digest
  function, and a client that answers by the host of the URL. \<open>https://down\<close> cannot be
  connected to, \<open>https://busy\<close> answers 503, \<open>https://evil\<close> serves a file of other
  content and every other host serves the bytes 1, 2, 3.
\<close>

definition unreserved :: "char \<Rightarrow> bool" where
  "unreserved c = (c \<in> set ''ABCDEFGHIJKLMNOPQRSTUVWXYZabcdefghijklmnopqrstuvwxyz0123456789-._~'')"

definition percent_encode :: "string \<Rightarrow> string" where
  "percent_encode s =
     concat (map (\<lambda>c. if unreserved c then [c]
                       else [CHR ''%'', hex_digit (of_char c div 16), hex_digit (of_char c mod 16)]) s)"

definition md0 :: EVP_MD where
  "md0 bs = of_nat (length bs)"

definition download1 :: "nat \<Rightarrow> request \<Rightarrow> path \<Rightarrow> nat \<Rightarrow> attempt \<times> nat" where
  "download1 c req p prms =
     (if take 12 (req_url req) = ''https://busy''
      then (\<lparr>written = None, result = Response 503 ''busy''\<rparr>, Suc c)
      else if take 12 (req_url req) = ''https://evil''
      then (\<lparr>written = Some \<lparr>bytes = [1], io_error = False\<rparr>, result = Response 200 ''''\<rparr>, Suc c)
      else (\<lparr>written = Some \<lparr>bytes = [1, 2, 3], io_error = False\<rparr>, result = Response 200 ''''\<rparr>,
            Suc c))"

definition download0 :: "nat \<Rightarrow> request \<Rightarrow> path \<Rightarrow> nat \<Rightarrow> attempt \<times> nat" where
  "download0 c req p prms =
     (if take 12 (req_url req) = ''https://down''
      then (\<lparr>written = None, result = Http_request_exception ''Could not connect''\<rparr>, Suc c)
      else download1 c req p prms)"

definition ext0 :: "nat externals" where
  "ext0 = \<lparr>EVP_sha256 = md0, curl_escaped_string = percent_encode, download_file = download0,
           unique_path = ''temp_task_0a1b-2c3d-4e5f-6789'', stack_buffer = []\<rparr>"

definition ext1 :: "nat externals" where
  "ext1 = ext0\<lparr>download_file := download1\<rparr>"

definition w0 :: "nat world" where
  "w0 = \<lparr>files = Map.empty, perms = Map.empty, client = 0, requests = [], warnings = []\<rparr>"

definition w_cached :: "nat world" where
  "w_cached = w0\<lparr>files := [''/cache/task'' \<mapsto> \<lparr>bytes = [1, 2, 3], io_error = False\<rparr>]\<rparr>"

definition uri0 :: uri_json where
  "uri0 = \<lparr>uri_path = ''/task'', uri_params = None\<rparr>"

definition file0 :: file_json where
  "file0 = \<lparr>file_filename = ''task'', file_sha256 = sha256_hex md0 [1, 2, 3], file_uri = uri0\<rparr>"

text \<open>
  The temporary path of a call on this platform with the cache directory \<open>/cache\<close>, the
  message of the \<open>busy\<close> mirror, and the worlds that the runs below reach from \<open>w0\<close>:
  after the \<open>busy\<close> mirror was tried, after the \<open>good\<close> mirror was tried next, and after
  the \<open>evil\<close> mirror alone was tried.
\<close>

definition tmp0 :: path where
  "tmp0 = ''/cache/temp_task_0a1b-2c3d-4e5f-6789''"

definition busy_text :: string where
  "busy_text = ''https://busy/task returned a response with HTTP status 503. Response body: busy''"

definition w_busy :: "nat world" where
  "w_busy = \<lparr>files = Map.empty, perms = Map.empty, client = 1,
             requests = [make_request ''https://busy'' ''/task'' 5 30],
             warnings = [warning_text ''https://busy'' busy_text]\<rparr>"

definition w_good :: "nat world" where
  "w_good = \<lparr>files = [tmp0 \<mapsto> \<lparr>bytes = [1, 2, 3], io_error = False\<rparr>],
             perms = [tmp0 \<mapsto> NIX_TASK_FILE_PERMS], client = 2,
             requests = [make_request ''https://busy'' ''/task'' 5 30,
                         make_request ''https://good'' ''/task'' 5 30],
             warnings = [warning_text ''https://busy'' busy_text]\<rparr>"

definition w_evil :: "nat world" where
  "w_evil = \<lparr>files = [tmp0 \<mapsto> \<lparr>bytes = [1], io_error = False\<rparr>],
             perms = [tmp0 \<mapsto> NIX_TASK_FILE_PERMS], client = 1,
             requests = [make_request ''https://evil'' ''/task'' 5 30],
             warnings = []\<rparr>"

section \<open>The digest of a file\<close>

lemma read_chunks_result:
  "\<not> eofbit s \<Longrightarrow> \<not> failbit s \<Longrightarrow> \<not> badbit s \<Longrightarrow>
   read_chunks s buffer mdctx = (ifs, buffer', mdctx') \<Longrightarrow>
   gcount ifs = length (rest s) mod CHUNK_SIZE \<and>
   mdctx' = mdctx @ take (CHUNK_SIZE * (length (rest s) div CHUNK_SIZE)) (rest s) \<and>
   take (gcount ifs) buffer' = drop (CHUNK_SIZE * (length (rest s) div CHUNK_SIZE)) (rest s) \<and>
   eof ifs = (\<not> faulty s)"
proof (induction s buffer mdctx rule: read_chunks.induct)
  case (1 s buffer mdctx)
  let ?n = "length (rest s)"
  have pos: "0 < CHUNK_SIZE" by (simp add: CHUNK_SIZE_def)
  show ?case
  proof (cases "CHUNK_SIZE \<le> ?n")
    case True
    let ?s' = "s\<lparr>rest := drop CHUNK_SIZE (rest s), gcount := CHUNK_SIZE\<rparr>"
    let ?b' = "take CHUNK_SIZE (rest s) @ drop CHUNK_SIZE buffer"
    have r: "read s buffer CHUNK_SIZE = (?s', ?b')"
      using 1 True by (simp add: read_def)
    have ok: "stream_ok ?s'" using 1 by (simp add: stream_ok_def)
    have step: "read_chunks s buffer mdctx = read_chunks ?s' ?b' (EVP_DigestUpdate mdctx ?b' CHUNK_SIZE)"
      by (subst read_chunks.simps) (simp add: r ok)
    have fed: "EVP_DigestUpdate mdctx ?b' CHUNK_SIZE = mdctx @ take CHUNK_SIZE (rest s)"
      using True by (simp add: EVP_DigestUpdate_def)
    have rc: "read_chunks ?s' ?b' (EVP_DigestUpdate mdctx ?b' CHUNK_SIZE) = (ifs, buffer', mdctx')"
      using 1(5) step by simp
    define q where "q = (?n - CHUNK_SIZE) div CHUNK_SIZE"
    have m: "(?n - CHUNK_SIZE) mod CHUNK_SIZE = ?n mod CHUNK_SIZE"
      using True by (simp add: le_mod_geq)
    have dq: "?n div CHUNK_SIZE = Suc q"
      using True pos by (simp add: q_def le_div_geq)
    have ih: "gcount ifs = length (rest ?s') mod CHUNK_SIZE \<and>
          mdctx' = EVP_DigestUpdate mdctx ?b' CHUNK_SIZE
             @ take (CHUNK_SIZE * (length (rest ?s') div CHUNK_SIZE)) (rest ?s') \<and>
          take (gcount ifs) buffer' = drop (CHUNK_SIZE * (length (rest ?s') div CHUNK_SIZE)) (rest ?s') \<and>
          eof ifs = (\<not> faulty ?s')"
      by (rule "1.IH" [unfolded r fst_conv snd_conv, OF ok _ _ _ rc]) (use 1 in simp_all)
    have rs: "rest ?s' = drop CHUNK_SIZE (rest s)" "faulty ?s' = faulty s" by simp_all
    have ln: "length (drop CHUNK_SIZE (rest s)) = ?n - CHUNK_SIZE" by simp
    have t: "take (CHUNK_SIZE * Suc q) (rest s)
               = take CHUNK_SIZE (rest s) @ take (CHUNK_SIZE * q) (drop CHUNK_SIZE (rest s))"
      using take_add [of CHUNK_SIZE "CHUNK_SIZE * q" "rest s"] by simp
    have d: "drop (CHUNK_SIZE * Suc q) (rest s) = drop (CHUNK_SIZE * q) (drop CHUNK_SIZE (rest s))"
      by (simp add: add.commute)
    from ih have g: "gcount ifs = ?n mod CHUNK_SIZE"
      and c: "mdctx' = (mdctx @ take CHUNK_SIZE (rest s)) @ take (CHUNK_SIZE * q) (drop CHUNK_SIZE (rest s))"
      and b: "take (gcount ifs) buffer' = drop (CHUNK_SIZE * q) (drop CHUNK_SIZE (rest s))"
      and e: "eof ifs = (\<not> faulty s)"
      unfolding rs ln fed m q_def [symmetric] by blast+
    show ?thesis unfolding dq t d using g c b e by simp
  next
    case False
    have "\<not> stream_ok (fst (read s buffer CHUNK_SIZE))"
      using 1 False by (simp add: read_def stream_ok_def)
    then have "read_chunks s buffer mdctx = (fst (read s buffer CHUNK_SIZE), snd (read s buffer CHUNK_SIZE), mdctx)"
      by (subst read_chunks.simps) simp
    with 1(5) have e: "ifs = fst (read s buffer CHUNK_SIZE)" "buffer' = snd (read s buffer CHUNK_SIZE)" "mdctx' = mdctx"
      by simp_all
    show ?thesis using 1(2-4) False
      by (simp add: e read_def eof_def)
  qed
qed

lemma read_chunks_open:
  assumes "read_chunks (ifstream_open (Some \<lparr>bytes = bs, io_error = False\<rparr>)) buffer EVP_DigestInit_ex
             = (ifs, buffer', mdctx)"
  shows "eof ifs" "gcount ifs = length bs mod CHUNK_SIZE"
    "mdctx = take (CHUNK_SIZE * (length bs div CHUNK_SIZE)) bs"
    "EVP_DigestUpdate mdctx buffer' (gcount ifs) = bs"
proof -
  let ?s = "ifstream_open (Some \<lparr>bytes = bs, io_error = False\<rparr>)"
  have s: "\<not> eofbit ?s" "\<not> failbit ?s" "\<not> badbit ?s" "rest ?s = bs" "\<not> faulty ?s"
    by (simp_all add: ifstream_open_def)
  note r = read_chunks_result [OF s(1-3) assms, unfolded s(4)]
  show "eof ifs" using r s(5) by simp
  show "gcount ifs = length bs mod CHUNK_SIZE" using r by blast
  show c: "mdctx = take (CHUNK_SIZE * (length bs div CHUNK_SIZE)) bs"
    using r by (simp add: EVP_DigestInit_ex_def)
  have "take (gcount ifs) buffer' = drop (CHUNK_SIZE * (length bs div CHUNK_SIZE)) bs"
    using r by blast
  then show "EVP_DigestUpdate mdctx buffer' (gcount ifs) = bs"
    by (simp add: EVP_DigestUpdate_def c)
qed

lemma tolower_hex_digit: "n < 16 \<Longrightarrow> tolower (hex_digit n) = lower_hex_digit n"
proof -
  have "list_all (\<lambda>n. tolower (hex_digit n) = lower_hex_digit n) [0..<16]"
    by code_simp
  then show "n < 16 \<Longrightarrow> tolower (hex_digit n) = lower_hex_digit n"
    by (simp add: list_all_iff)
qed

lemma lower_hex_digit_range: "n < 16 \<Longrightarrow> lower_hex_digit n \<in> set ''0123456789abcdef''"
  unfolding lower_hex_digit_def by (rule nth_mem) simp

lemma nibbles: "unat (b :: byte) div 16 < 16" "unat b mod 16 < 16"
proof -
  have "unat b < 256" using unsigned_less [of b] by simp
  then show "unat b div 16 < 16" by simp
  show "unat b mod 16 < 16" by simp
qed

lemma tolower_hex: "map tolower (hex bs) = lower_hex bs"
  by (induction bs) (simp_all add: hex_def lower_hex_def tolower_hex_digit nibbles)

lemma length_lower_hex: "length (lower_hex bs) = 2 * length bs"
  by (induction bs) (simp_all add: lower_hex_def)

lemma set_lower_hex: "set (lower_hex bs) \<subseteq> set ''0123456789abcdef''"
proof (induction bs)
  case Nil
  show ?case by (simp add: lower_hex_def)
next
  case (Cons b bs)
  have "lower_hex (b # bs) = [lower_hex_digit (unat b div 16), lower_hex_digit (unat b mod 16)] @ lower_hex bs"
    by (simp add: lower_hex_def)
  then show ?case
    using Cons lower_hex_digit_range [OF nibbles(1) [of b]] lower_hex_digit_range [OF nibbles(2) [of b]]
    by simp
qed

lemma calculateSha256_readable:
  "calculateSha256 md buffer path (Some \<lparr>bytes = bs, io_error = False\<rparr>)
     = Inr (sha256_hex md bs)"
proof -
  obtain ifs buffer' mdctx where
    r: "read_chunks (ifstream_open (Some \<lparr>bytes = bs, io_error = False\<rparr>)) buffer EVP_DigestInit_ex
          = (ifs, buffer', mdctx)"
    by (cases "read_chunks (ifstream_open (Some \<lparr>bytes = bs, io_error = False\<rparr>)) buffer EVP_DigestInit_ex")
  show ?thesis
    using read_chunks_open(1,4) [OF r]
    by (simp add: calculateSha256_def r tolower_hex EVP_DigestFinal_ex_def digest_bytes_def
          sha256_hex_def)
qed

lemma length_sha256_hex: "length (sha256_hex md bs) = 64"
  by (simp add: sha256_hex_def length_lower_hex digest_bytes_def)

text \<open>
  C8: the digest of a readable file is a function of its bytes alone. Whatever the
  uninitialised buffer holds and whatever the path is, \<open>calculateSha256\<close> returns the
  lower-case hexadecimal form of the SHA-256 of the bytes, a string of 64 characters all of
  which are among \<open>0123456789abcdef\<close>; so two runs over the same bytes return the same
  string.
\<close>

theorem calculateSha256_deterministic:
  "calculateSha256 md buffer path (Some \<lparr>bytes = bs, io_error = False\<rparr>) = Inr (sha256_hex md bs)
   \<and> calculateSha256 md buffer path (Some \<lparr>bytes = bs, io_error = False\<rparr>)
       = calculateSha256 md buffer2 path2 (Some \<lparr>bytes = bs, io_error = False\<rparr>)
   \<and> length (sha256_hex md bs) = 64
   \<and> set (sha256_hex md bs) \<subseteq> set ''0123456789abcdef''"
proof (intro conjI)
  show "calculateSha256 md buffer path (Some \<lparr>bytes = bs, io_error = False\<rparr>)
          = Inr (sha256_hex md bs)"
    by (rule calculateSha256_readable)
  show "calculateSha256 md buffer path (Some \<lparr>bytes = bs, io_error = False\<rparr>)
          = calculateSha256 md buffer2 path2 (Some \<lparr>bytes = bs, io_error = False\<rparr>)"
    by (simp only: calculateSha256_readable)
  show "length (sha256_hex md bs) = 64"
    by (rule length_sha256_hex)
  show "set (sha256_hex md bs) \<subseteq> set ''0123456789abcdef''"
    unfolding sha256_hex_def by (rule set_lower_hex)
qed

text \<open>
  C10: for a readable file whose length is zero or a multiple of \<open>CHUNK_SIZE\<close> the loop
  ends on a read that extracts nothing and sets \<open>eofbit\<close>, so no error is raised; the context
  then holds exactly the bytes of the file, the last update adds \<open>gcount() = 0\<close> bytes, and
  the function returns the digest of the file's bytes.
\<close>

theorem calculateSha256_whole_chunks:
  assumes "length bs mod CHUNK_SIZE = 0"
  shows "eof (fst (read_chunks (ifstream_open (Some \<lparr>bytes = bs, io_error = False\<rparr>))
                     buffer EVP_DigestInit_ex))
    \<and> gcount (fst (read_chunks (ifstream_open (Some \<lparr>bytes = bs, io_error = False\<rparr>))
                     buffer EVP_DigestInit_ex)) = 0
    \<and> snd (snd (read_chunks (ifstream_open (Some \<lparr>bytes = bs, io_error = False\<rparr>))
                     buffer EVP_DigestInit_ex)) = bs
    \<and> calculateSha256 md buffer path (Some \<lparr>bytes = bs, io_error = False\<rparr>)
          = Inr (sha256_hex md bs)"
proof -
  obtain ifs buffer' mdctx where
    r: "read_chunks (ifstream_open (Some \<lparr>bytes = bs, io_error = False\<rparr>)) buffer EVP_DigestInit_ex
          = (ifs, buffer', mdctx)"
    by (cases "read_chunks (ifstream_open (Some \<lparr>bytes = bs, io_error = False\<rparr>)) buffer
                 EVP_DigestInit_ex")
  from assms have "CHUNK_SIZE dvd length bs"
    by (simp add: mod_eq_0_iff_dvd)
  then have "CHUNK_SIZE * (length bs div CHUNK_SIZE) = length bs"
    by (rule dvd_mult_div_cancel)
  then have "mdctx = bs"
    using read_chunks_open(3) [OF r] by simp
  then show ?thesis
    using read_chunks_open(1,2) [OF r] assms by (simp add: r calculateSha256_readable)
qed

theorem calculateSha256_whole_chunks_witness:
  "length (replicate 32768 (7 :: byte)) mod CHUNK_SIZE = 0
   \<and> calculateSha256 (\<lambda>bs. of_nat (length bs)) [] ''/cache/task''
         (Some \<lparr>bytes = replicate 32768 7, io_error = False\<rparr>)
       = Inr (sha256_hex (\<lambda>bs. of_nat (length bs)) (replicate 32768 7))"
proof -
  have h: "length (replicate 32768 (7 :: byte)) mod CHUNK_SIZE = 0"
    by (simp only: length_replicate CHUNK_SIZE_def) simp
  show ?thesis
    using h calculateSha256_whole_chunks [OF h, of "[]" "\<lambda>bs. of_nat (length bs)" "''/cache/task''"]
    by blast
qed

section \<open>The shape of an endpoint\<close>

lemma fold_append_pairs:
  "fold (\<lambda>key url. url @ f key @ ''&'') ks acc = acc @ concat (map (\<lambda>k. f k @ ''&'') ks)"
  by (induction ks arbitrary: acc) simp_all

lemma concat_amp_join:
  "xs \<noteq> [] \<Longrightarrow> concat (map (\<lambda>x. x @ ''&'') xs) = join ''&'' xs @ ''&''"
  by (induction "''&''" xs rule: join.induct) simp_all

lemma get_string_distinct:
  "distinct (map fst ps) \<Longrightarrow> (k, v) \<in> set ps \<Longrightarrow> get_string ps k = v"
  by (simp add: get_string_def)

lemma keyed_pairs:
  assumes "distinct (map fst ps)"
  shows "map (\<lambda>key. esc key @ ''='' @ esc (get_string ps key)) (keys ps) = encoded_pairs esc ps"
  unfolding keys_def encoded_pairs_def map_map
  by (rule map_cong [OF refl]) (use get_string_distinct [OF assms] in auto)

lemma createUrlEndpoint_keys:
  assumes "ps \<noteq> []"
  shows "createUrlEndpoint ext \<lparr>uri_path = p, uri_params = Some ps\<rparr>
     = p @ ''?'' @ join ''&'' (map (\<lambda>key. curl_escaped_string ext key @ ''=''
                             @ curl_escaped_string ext (get_string ps key)) (keys ps))"
proof -
  let ?f = "\<lambda>key. curl_escaped_string ext key @ ''='' @ curl_escaped_string ext (get_string ps key)"
  have ne: "map ?f (keys ps) \<noteq> []" using assms by (simp add: keys_def)
  have "fold (\<lambda>key url. url @ curl_escaped_string ext key @ ''=''
                      @ curl_escaped_string ext (get_string ps key) @ ''&'') (keys ps) (p @ ''?'')
        = (p @ ''?'') @ concat (map (\<lambda>k. ?f k @ ''&'') (keys ps))"
    using fold_append_pairs [of ?f "keys ps" "p @ ''?''"] by simp
  also have "concat (map (\<lambda>k. ?f k @ ''&'') (keys ps)) = concat (map (\<lambda>x. x @ ''&'') (map ?f (keys ps)))"
    by (simp add: comp_def)
  also have "\<dots> = join ''&'' (map ?f (keys ps)) @ ''&''"
    by (rule concat_amp_join [OF ne])
  finally show ?thesis
    using assms by (simp add: createUrlEndpoint_def butlast_append)
qed

lemma count_join:
  "\<forall>x \<in> set xs. c \<notin> set x \<Longrightarrow> c \<notin> set sep \<Longrightarrow> c \<notin> set (join sep xs)"
  by (induction sep xs rule: join.induct) simp_all

lemma join_ends: "xs \<noteq> [] \<Longrightarrow> \<exists>pre. join sep xs = pre @ last xs"
proof (induction sep xs rule: join.induct)
  case (3 sep x y ys)
  then obtain pre where "join sep (y # ys) = pre @ last (y # ys)" by auto
  then have "join sep (x # y # ys) = (x @ sep @ pre) @ last (x # y # ys)" by simp
  then show ?case by blast
qed simp_all

lemma encoded_pair_last:
  "CHR ''&'' \<notin> set ev \<Longrightarrow> last (ek @ ''='' @ ev) \<noteq> CHR ''&''"
proof (cases "ev = []")
  case True
  then show ?thesis by simp
next
  case False
  assume "CHR ''&'' \<notin> set ev"
  with last_in_set [OF False] have "last ev \<noteq> CHR ''&''" by metis
  with False show ?thesis by simp
qed

lemma last_join_pairs:
  assumes "ps \<noteq> []" and "\<forall>s. CHR ''&'' \<notin> set (esc s)"
  shows "last (p @ ''?'' @ join ''&'' (encoded_pairs esc ps)) \<noteq> CHR ''&''"
proof -
  let ?xs = "encoded_pairs esc ps"
  have ne: "?xs \<noteq> []" using assms(1) by (simp add: encoded_pairs_def)
  then obtain pre where j: "join ''&'' ?xs = pre @ last ?xs"
    using join_ends by blast
  have "last ?xs \<in> set ?xs" using ne by simp
  then obtain k v where kv: "last ?xs = esc k @ ''='' @ esc v"
    by (auto simp: encoded_pairs_def)
  then have "last ?xs \<noteq> []" by simp
  then have "last (p @ ''?'' @ join ''&'' ?xs) = last (last ?xs)"
    by (simp add: j)
  also have "\<dots> \<noteq> CHR ''&''"
    unfolding kv using assms(2) by (intro encoded_pair_last) simp
  finally show ?thesis .
qed

lemma no_question_mark:
  assumes "\<forall>s. CHR ''?'' \<notin> set (esc s)"
  shows "CHR ''?'' \<notin> set (join ''&'' (encoded_pairs esc ps))"
  by (rule count_join) (use assms in \<open>auto simp: encoded_pairs_def\<close>)

text \<open>
  C7: without \<open>params\<close>, or with an empty \<open>params\<close>, \<open>createUrlEndpoint\<close> returns the path
  as it is. For a non-empty mapping (no key twice) it returns the path, one \<open>?\<close>, and the
  pairs \<open>key=value\<close>, both sides escaped, with \<open>&\<close> between two pairs and none after the
  last. When the escaping never yields \<open>?\<close> or \<open>&\<close>, as percent-encoding does not, the
  part behind that \<open>?\<close> holds no further \<open>?\<close> and the result does not end in \<open>&\<close>.
\<close>

theorem createUrlEndpoint_shape:
  "createUrlEndpoint ext \<lparr>uri_path = p, uri_params = None\<rparr> = p
   \<and> createUrlEndpoint ext \<lparr>uri_path = p, uri_params = Some []\<rparr> = p
   \<and> (ps \<noteq> [] \<and> distinct (map fst ps) \<longrightarrow>
        createUrlEndpoint ext \<lparr>uri_path = p, uri_params = Some ps\<rparr>
          = p @ ''?'' @ join ''&'' (encoded_pairs (curl_escaped_string ext) ps)
        \<and> ((\<forall>s. CHR ''?'' \<notin> set (curl_escaped_string ext s)
                 \<and> CHR ''&'' \<notin> set (curl_escaped_string ext s)) \<longrightarrow>
             CHR ''?'' \<notin> set (join ''&'' (encoded_pairs (curl_escaped_string ext) ps))
             \<and> last (createUrlEndpoint ext \<lparr>uri_path = p, uri_params = Some ps\<rparr>) \<noteq> CHR ''&''))"
proof (intro conjI impI)
  show "createUrlEndpoint ext \<lparr>uri_path = p, uri_params = None\<rparr> = p"
    by (simp add: createUrlEndpoint_def)
  show "createUrlEndpoint ext \<lparr>uri_path = p, uri_params = Some []\<rparr> = p"
    by (simp add: createUrlEndpoint_def)
next
  assume a: "ps \<noteq> [] \<and> distinct (map fst ps)"
  show e: "createUrlEndpoint ext \<lparr>uri_path = p, uri_params = Some ps\<rparr>
          = p @ ''?'' @ join ''&'' (encoded_pairs (curl_escaped_string ext) ps)"
    using a createUrlEndpoint_keys [of ps ext p] keyed_pairs [of ps "curl_escaped_string ext"]
    by simp
  assume b: "\<forall>s. CHR ''?'' \<notin> set (curl_escaped_string ext s)
                 \<and> CHR ''&'' \<notin> set (curl_escaped_string ext s)"
  show "CHR ''?'' \<notin> set (join ''&'' (encoded_pairs (curl_escaped_string ext) ps))"
    using b by (intro no_question_mark) simp
  show "last (createUrlEndpoint ext \<lparr>uri_path = p, uri_params = Some ps\<rparr>) \<noteq> CHR ''&''"
    unfolding e using a b by (intro last_join_pairs) simp_all
qed

lemma hex_digit_range: "n < 16 \<Longrightarrow> hex_digit n \<in> set ''0123456789ABCDEF''"
  unfolding hex_digit_def by (rule nth_mem) simp

lemma hex_digit_not_reserved:
  assumes "n < 16"
  shows "hex_digit n \<noteq> CHR ''?''" "hex_digit n \<noteq> CHR ''&''"
proof -
  have r: "CHR ''?'' \<notin> set ''0123456789ABCDEF''" "CHR ''&'' \<notin> set ''0123456789ABCDEF''"
    by simp_all
  from hex_digit_range [OF assms] r show "hex_digit n \<noteq> CHR ''?''" by metis
  from hex_digit_range [OF assms] r show "hex_digit n \<noteq> CHR ''&''" by metis
qed

lemma unreserved_not_reserved: "\<not> unreserved (CHR ''?'')" "\<not> unreserved (CHR ''&'')"
  by (simp_all add: unreserved_def)

lemma percent_encode_reserved:
  "CHR ''?'' \<notin> set (percent_encode s) \<and> CHR ''&'' \<notin> set (percent_encode s)"
proof (induction s)
  case Nil
  show ?case by (simp add: percent_encode_def)
next
  case (Cons c s)
  have "(of_char c :: nat) < 256" by simp
  then have hi: "(of_char c :: nat) div 16 < 16" by arith
  have lo: "(of_char c :: nat) mod 16 < 16" by simp
  have e: "percent_encode (c # s) =
      (if unreserved c then [c]
       else [CHR ''%'', hex_digit (of_char c div 16), hex_digit (of_char c mod 16)])
      @ percent_encode s"
    by (simp add: percent_encode_def)
  show ?case
  proof (cases "unreserved c")
    case True
    with unreserved_not_reserved have "c \<noteq> CHR ''?''" "c \<noteq> CHR ''&''" by metis+
    with True Cons.IH show ?thesis unfolding e by simp
  next
    case False
    with Cons.IH hex_digit_not_reserved [OF hi] hex_digit_not_reserved [OF lo]
    show ?thesis unfolding e by simp
  qed
qed

section \<open>The loop over the master URIs\<close>



lemma call_download_file_frame:
  assumes "call_download_file ext req file_path prms w = (r, w1)"
  shows "requests w1 = requests w @ [req]" "warnings w1 = warnings w"
    "p \<noteq> file_path \<Longrightarrow> files w1 p = files w p"
    "p \<noteq> file_path \<Longrightarrow> perms w1 p = perms w p"
  using assms
  by (auto simp: call_download_file_def split: prod.splits option.splits)

lemma req_url_make_request [simp]:
  "req_url (make_request m ep ct t) = m @ ep"
  by (simp add: make_request_def)

lemma exists_LOG_WARNING [simp]: "exists (LOG_WARNING msg w) p = exists w p"
  by (simp add: exists_def LOG_WARNING_def)

lemma download_loop_Cons:
  assumes "call_download_file ext (make_request m ep ct t) fp NIX_TASK_FILE_PERMS w = (r, w1)"
  shows "download_loop ext ct t fp ep (m # uris) res w =
     (case try_block (m @ ep) r of
        Request what \<Rightarrow>
          (Inl (ProcessingError DownloadError (''Downloading the task file failed. Reason: '' @ what)), w1)
      | File_download what \<Rightarrow>
          if exists w1 fp
          then (Inr (True, what), LOG_WARNING (warning_text m what) w1)
          else download_loop ext ct t fp ep uris (fst res, what) (LOG_WARNING (warning_text m what) w1)
      | No_exception \<Rightarrow>
          if exists w1 fp then (Inr (True, snd res), w1)
          else download_loop ext ct t fp ep uris res w1)"
  using assms by (simp add: Let_def split: thrown.splits)

lemma LOG_WARNING_fields [simp]:
  "files (LOG_WARNING msg w) = files w" "perms (LOG_WARNING msg w) = perms w"
  "requests (LOG_WARNING msg w) = requests w" "client (LOG_WARNING msg w) = client w"
  "warnings (LOG_WARNING msg w) = warnings w @ [msg]"
  by (simp_all add: LOG_WARNING_def)

lemma download_loop_frame:
  "p \<noteq> fp \<Longrightarrow> download_loop ext ct t fp ep uris res w = (out, w') \<Longrightarrow>
   files w' p = files w p \<and> perms w' p = perms w p"
proof (induction uris arbitrary: res w)
  case Nil
  then show ?case by simp
next
  case (Cons m uris)
  obtain r w1 where c: "call_download_file ext (make_request m ep ct t) fp NIX_TASK_FILE_PERMS w = (r, w1)"
    by (cases "call_download_file ext (make_request m ep ct t) fp NIX_TASK_FILE_PERMS w")
  note f = call_download_file_frame(3,4) [OF c Cons.prems(1)]
  note step = Cons.prems(2) [unfolded download_loop_Cons [OF c]]
  show ?case
  proof (cases "try_block (m @ ep) r")
    case No_exception
    show ?thesis
    proof (cases "exists w1 fp")
      case True
      with step No_exception f show ?thesis
        by simp
    next
      case False
      with step No_exception
      have "download_loop ext ct t fp ep uris res w1 = (out, w')"
        by simp
      from Cons.IH [OF Cons.prems(1) this] f show ?thesis by simp
    qed
  next
    case (File_download what)
    let ?w2 = "LOG_WARNING (warning_text m what) w1"
    show ?thesis
    proof (cases "exists w1 fp")
      case True
      with step File_download f show ?thesis
        by auto
    next
      case False
      with step File_download
      have "download_loop ext ct t fp ep uris (fst res, what) ?w2 = (out, w')"
        by simp
      from Cons.IH [OF Cons.prems(1) this] f show ?thesis by simp
    qed
  next
    case (Request what)
    with step f show ?thesis
      by auto
  qed
qed

lemma download_loop_result:
  "download_loop ext ct t fp ep uris (False, m0) w = (Inr (ok, msg), w') \<Longrightarrow>
   (uris \<noteq> [] \<longrightarrow> ok = exists w' fp) \<and> (uris = [] \<longrightarrow> \<not> ok)
   \<and> (\<not> ok \<longrightarrow> requests w' = requests w @ map (\<lambda>m. make_request m ep ct t) uris)
   \<and> (\<exists>ws. warnings w' = warnings w @ ws
         \<and> (if ws = [] then msg = m0
             else \<exists>m \<in> set uris. last ws = warning_text m msg))"
proof (induction uris arbitrary: m0 w)
  case Nil
  then show ?case by auto
next
  case (Cons m uris)
  obtain r w1 where c: "call_download_file ext (make_request m ep ct t) fp NIX_TASK_FILE_PERMS w = (r, w1)"
    by (cases "call_download_file ext (make_request m ep ct t) fp NIX_TASK_FILE_PERMS w")
  note f = call_download_file_frame(1,2) [OF c]
  note step = Cons.prems(1) [unfolded download_loop_Cons [OF c] fst_conv snd_conv]
  show ?case
  proof (cases "try_block (m @ ep) r")
    case No_exception
    show ?thesis
    proof (cases "exists w1 fp")
      case True
      with step No_exception have "ok" "msg = m0" "w' = w1" by simp_all
      with True f show ?thesis by simp
    next
      case False
      with step No_exception
      have l: "download_loop ext ct t fp ep uris (False, m0) w1 = (Inr (ok, msg), w')"
        by simp
      note ih = Cons.IH [OF l]
      from ih obtain ws where ws: "warnings w' = warnings w1 @ ws"
        "if ws = [] then msg = m0 else \<exists>m \<in> set uris. last ws = warning_text m msg"
        by blast
      have a: "ok = exists w' fp"
      proof (cases uris)
        case Nil
        with l False show ?thesis by auto
      next
        case (Cons a list)
        with ih show ?thesis by simp
      qed
      have b: "\<not> ok \<longrightarrow> requests w' = requests w @ map (\<lambda>m. make_request m ep ct t) (m # uris)"
        using ih f by simp
      have d: "\<exists>ws. warnings w' = warnings w @ ws
         \<and> (if ws = [] then msg = m0
             else \<exists>m \<in> set (m # uris). last ws = warning_text m msg)"
        using ws f by (intro exI [of _ ws]) auto
      show ?thesis using a b d by simp
    qed
  next
    case (File_download what)
    let ?w2 = "LOG_WARNING (warning_text m what) w1"
    show ?thesis
    proof (cases "exists w1 fp")
      case True
      with step File_download have e: "ok" "msg = what" "w' = ?w2" by auto
      have "warnings w' = warnings w @ [warning_text m what]" using e f by simp
      then have "\<exists>ws. warnings w' = warnings w @ ws
         \<and> (if ws = [] then msg = m0
             else \<exists>m \<in> set (m # uris). last ws = warning_text m msg)"
        using e by (intro exI [of _ "[warning_text m what]"]) simp
      with True e show ?thesis by simp
    next
      case False
      with step File_download
      have l: "download_loop ext ct t fp ep uris (False, what) ?w2 = (Inr (ok, msg), w')"
        by simp
      note ih = Cons.IH [OF l]
      from ih obtain ws where ws: "warnings w' = warnings ?w2 @ ws"
        "if ws = [] then msg = what else \<exists>m \<in> set uris. last ws = warning_text m msg"
        by blast
      have a: "ok = exists w' fp"
      proof (cases uris)
        case Nil
        with l False show ?thesis by auto
      next
        case (Cons a list)
        with ih show ?thesis by simp
      qed
      have b: "\<not> ok \<longrightarrow> requests w' = requests w @ map (\<lambda>m. make_request m ep ct t) (m # uris)"
        using ih f by simp
      have "warnings w' = warnings w @ (warning_text m what # ws)" using ws(1) f by simp
      moreover have "\<exists>m' \<in> set (m # uris). last (warning_text m what # ws) = warning_text m' msg"
        using ws(2) by (cases "ws = []") auto
      ultimately have d: "\<exists>ws. warnings w' = warnings w @ ws
         \<and> (if ws = [] then msg = m0
             else \<exists>m \<in> set (m # uris). last ws = warning_text m msg)"
        by (intro exI [of _ "warning_text m what # ws"]) simp
      show ?thesis using a b d by simp
    qed
  next
    case (Request what)
    with step show ?thesis by simp
  qed
qed

lemma download_loop_error:
  "download_loop ext ct t fp ep uris res w = (Inl e, w') \<Longrightarrow>
   \<exists>what. e = ProcessingError DownloadError (''Downloading the task file failed. Reason: '' @ what)"
proof (induction uris arbitrary: res w)
  case Nil
  then show ?case by simp
next
  case (Cons m uris)
  obtain r w1 where c: "call_download_file ext (make_request m ep ct t) fp NIX_TASK_FILE_PERMS w = (r, w1)"
    by (cases "call_download_file ext (make_request m ep ct t) fp NIX_TASK_FILE_PERMS w")
  note step = Cons.prems(1) [unfolded download_loop_Cons [OF c]]
  show ?case
    using step Cons.IH
    by (cases "try_block (m @ ep) r"; cases "exists w1 fp") auto
qed



lemma download_loop_append:
  "download_loop ext ct t fp ep (pre @ post) (False, m0) w =
     (case download_loop ext ct t fp ep pre (False, m0) w of
        (Inr (False, msg), w') \<Rightarrow> download_loop ext ct t fp ep post (False, msg) w'
      | other \<Rightarrow> other)"
proof (induction pre arbitrary: m0 w)
  case Nil
  show ?case by simp
next
  case (Cons m pre)
  obtain r w1 where c: "call_download_file ext (make_request m ep ct t) fp NIX_TASK_FILE_PERMS w = (r, w1)"
    by (cases "call_download_file ext (make_request m ep ct t) fp NIX_TASK_FILE_PERMS w")
  have "download_loop ext ct t fp ep (m # (pre @ post)) (False, m0) w =
     (case download_loop ext ct t fp ep (m # pre) (False, m0) w of
        (Inr (False, msg), w') \<Rightarrow> download_loop ext ct t fp ep post (False, msg) w'
      | other \<Rightarrow> other)"
    unfolding download_loop_Cons [OF c]
    using Cons.IH
    by (cases "try_block (m @ ep) r"; cases "exists w1 fp") simp_all
  then show ?case by simp
qed

text \<open>
  C4: when the mirrors before \<open>m\<close> have been tried without success and the attempt at \<open>m\<close>
  fails with a fatal failure (an \<open>http_request_exception\<close> that is not a download
  exception), \<open>downloadFileWithCurl\<close> fails with \<open>DownloadError\<close> carrying the text of that
  failure, and the requests made are those of the mirrors up to \<open>m\<close>: no mirror listed
  after \<open>m\<close> is tried, whatever the list \<open>post\<close> holds.
\<close>

theorem fatal_failure_aborts:
  assumes "downloadFileWithCurl ext pre ct t fp uri w = (Inr (False, msg), w_pre)"
    and "call_download_file ext (make_request m (createUrlEndpoint ext uri) ct t) fp
           NIX_TASK_FILE_PERMS w_pre = (r, w1)"
    and "fatal r"
  shows "downloadFileWithCurl ext (pre @ m # post) ct t fp uri w
           = (Inl (ProcessingError DownloadError
                     (''Downloading the task file failed. Reason: '' @ failure_text (m @ createUrlEndpoint ext uri) r)), w1)
    \<and> requests w1
         = requests w @ map (\<lambda>m. make_request m (createUrlEndpoint ext uri) ct t) (pre @ [m])"
proof -
  let ?ep = "createUrlEndpoint ext uri"
  obtain what where r: "r = Http_request_exception what"
    using assms(3) by (cases r) (simp_all add: fatal_def)
  have l: "download_loop ext ct t fp ?ep pre (False, []) w = (Inr (False, msg), w_pre)"
    using assms(1) by (simp add: downloadFileWithCurl_def)
  have "download_loop ext ct t fp ?ep (m # post) (False, msg) w_pre
          = (Inl (ProcessingError DownloadError
                    (''Downloading the task file failed. Reason: '' @ what)), w1)"
    unfolding download_loop_Cons [OF assms(2)] by (simp add: r try_block_def)
  then have a: "downloadFileWithCurl ext (pre @ m # post) ct t fp uri w
           = (Inl (ProcessingError DownloadError
                     (''Downloading the task file failed. Reason: '' @ what)), w1)"
    unfolding downloadFileWithCurl_def download_loop_append l by simp
  have "requests w_pre = requests w @ map (\<lambda>m. make_request m ?ep ct t) pre"
    using download_loop_result [OF l] by simp
  then have b: "requests w1 = requests w @ map (\<lambda>m. make_request m ?ep ct t) (pre @ [m])"
    using call_download_file_frame(1) [OF assms(2)] by simp
  show ?thesis using a b by (simp add: r failure_text_def)
qed


text \<open>
  C6: after an attempt that is not fatal, a file at the path makes the loop return at once
  with \<open>succeeded = true\<close>, the request of this mirror being the last one made. A call that
  returns its tuple for a non-empty list returns \<open>succeeded\<close> as the existence of the file at
  the end; when it returns \<open>false\<close> every mirror has been tried, in order; and the message
  is empty when no warning was logged and else the text of the last warning logged.
\<close>

theorem temp_file_decides_outcome:
  "(call_download_file ext (make_request m ep ct t) fp NIX_TASK_FILE_PERMS w = (r, w1)
      \<and> \<not> fatal r \<and> exists w1 fp \<longrightarrow>
      fst (download_loop ext ct t fp ep (m # uris) res w)
        = Inr (True, if mirror_local r then failure_text (m @ ep) r else snd res)
      \<and> requests (snd (download_loop ext ct t fp ep (m # uris) res w))
          = requests w @ [make_request m ep ct t])
   \<and> (downloadFileWithCurl ext master_uris ct t fp uri w = (Inr (ok, msg), w') \<longrightarrow>
        (master_uris \<noteq> [] \<longrightarrow> ok = exists w' fp) \<and> (master_uris = [] \<longrightarrow> \<not> ok)
      \<and> (\<not> ok \<longrightarrow> requests w'
            = requests w @ map (\<lambda>m. make_request m (createUrlEndpoint ext uri) ct t) master_uris)
      \<and> (\<exists>ws. warnings w' = warnings w @ ws
            \<and> (if ws = [] then msg = []
                else \<exists>m \<in> set master_uris. last ws = warning_text m msg)))"
proof (intro conjI impI)
  assume a: "call_download_file ext (make_request m ep ct t) fp NIX_TASK_FILE_PERMS w = (r, w1)
      \<and> \<not> fatal r \<and> exists w1 fp"
  then have c: "call_download_file ext (make_request m ep ct t) fp NIX_TASK_FILE_PERMS w = (r, w1)"
    and e: "exists w1 fp" and nf: "\<not> fatal r"
    by simp_all
  have step: "download_loop ext ct t fp ep (m # uris) res w =
      (if mirror_local r
       then (Inr (True, failure_text (m @ ep) r),
             LOG_WARNING (warning_text m (failure_text (m @ ep) r)) w1)
       else (Inr (True, snd res), w1))"
    unfolding download_loop_Cons [OF c] using e nf
    by (cases r) (simp_all add: try_block_def mirror_local_def failure_text_def fatal_def)
  show "fst (download_loop ext ct t fp ep (m # uris) res w)
        = Inr (True, if mirror_local r then failure_text (m @ ep) r else snd res)"
    unfolding step by simp
  show "requests (snd (download_loop ext ct t fp ep (m # uris) res w))
          = requests w @ [make_request m ep ct t]"
    unfolding step using call_download_file_frame(1) [OF c] by simp
next
  assume "downloadFileWithCurl ext master_uris ct t fp uri w = (Inr (ok, msg), w')"
  then have l: "download_loop ext ct t fp (createUrlEndpoint ext uri) master_uris (False, []) w
      = (Inr (ok, msg), w')"
    by (simp add: downloadFileWithCurl_def)
  note res = download_loop_result [OF l]
  show "ok = exists w' fp" if "master_uris \<noteq> []" using res that by blast
  show "\<not> ok" if "master_uris = []" using res that by blast
  show "requests w'
            = requests w @ map (\<lambda>m. make_request m (createUrlEndpoint ext uri) ct t) master_uris"
    if "\<not> ok"
    using res that by blast
  show "\<exists>ws. warnings w' = warnings w @ ws
            \<and> (if ws = [] then msg = []
                else \<exists>m \<in> set master_uris. last ws = warning_text m msg)"
    using res by blast
qed

section \<open>The installer\<close>

lemma calculateSha256_error:
  "calculateSha256 md buffer path fo = Inl e \<Longrightarrow>
   e = ProcessingError ReadError (''Error while reading '' @ path)"
  by (auto simp: calculateSha256_def split: prod.splits if_splits)

lemma already_cached_hit:
  assumes "files w destination = Some f"
    and "calculateSha256 (EVP_sha256 ext) (stack_buffer ext) destination (Some f) = Inr sha256"
  shows "already_cached ext destination sha256 w = Inr True"
  using assms by (simp add: already_cached_def exists_def)

lemma already_cached_miss:
  assumes "\<not> exists w destination
     \<or> (\<exists>d. calculateSha256 (EVP_sha256 ext) (stack_buffer ext) destination (files w destination) = Inr d
            \<and> d \<noteq> sha256)"
  shows "already_cached ext destination sha256 w = Inr False"
  using assms by (auto simp: already_cached_def)

lemma already_cached_error:
  "already_cached ext destination sha256 w = Inl e \<Longrightarrow>
   e = ProcessingError ReadError (''Error while reading '' @ destination)"
  by (auto simp: already_cached_def dest: calculateSha256_error split: if_splits sum.splits)

lemma fast_path:
  assumes "already_cached ext destination (file_sha256 file) w = Inr True"
  shows "downloadFileFromMaster ext master_uris ct t cache_dir destination file w
           = (Inr destination, permissions destination NIX_TASK_FILE_PERMS w)"
  using assms by (simp add: downloadFileFromMaster_def)

lemma slow_path:
  assumes "already_cached ext destination (file_sha256 file) w = Inr False"
  shows "downloadFileFromMaster ext master_uris ct t cache_dir destination file w
           = download_and_install ext master_uris ct t cache_dir destination file w"
  using assms by (simp add: downloadFileFromMaster_def)

lemma download_and_install_error:
  assumes "master_uris \<noteq> []"
    and "download_and_install ext master_uris ct t cache_dir destination file w = (Inl (ProcessingError k text), w')"
  shows "k \<noteq> ConfigError"
proof -
  let ?tmp = "path_append cache_dir (unique_path ext)"
  obtain out w1 where d: "downloadFileWithCurl ext master_uris ct t ?tmp (file_uri file) w = (out, w1)"
    by (cases "downloadFileWithCurl ext master_uris ct t ?tmp (file_uri file) w")
  show ?thesis
  proof (cases out)
    case (Inl e)
    with d have "\<exists>what. e = ProcessingError DownloadError (''Downloading the task file failed. Reason: '' @ what)"
      by (auto simp: downloadFileWithCurl_def dest: download_loop_error)
    with assms d Inl show ?thesis
      by (auto simp: download_and_install_def Let_def)
  next
    case (Inr res)
    with assms d show ?thesis
      by (auto simp: download_and_install_def Let_def
               split: if_splits sum.splits dest: calculateSha256_error)
  qed
qed

text \<open>
  C2: when \<open>destination\<close> holds a file whose digest is the \<open>sha256\<close> of the request, the
  call sets the permissions of \<open>destination\<close> and returns \<open>destination\<close>; nothing else of
  the world changes: no request reaches the client, the client keeps its state and the
  files stay as they were.
\<close>

theorem downloadFileFromMaster_fast_path:
  assumes "files w destination = Some f"
    and "calculateSha256 (EVP_sha256 ext) (stack_buffer ext) destination (Some f)
           = Inr (file_sha256 file)"
  shows "downloadFileFromMaster ext master_uris ct t cache_dir destination file w
           = (Inr destination, w\<lparr>perms := (perms w)(destination \<mapsto> NIX_TASK_FILE_PERMS)\<rparr>)
    \<and> requests (snd (downloadFileFromMaster ext master_uris ct t cache_dir destination file w))
           = requests w
    \<and> client (snd (downloadFileFromMaster ext master_uris ct t cache_dir destination file w))
           = client w
    \<and> files (snd (downloadFileFromMaster ext master_uris ct t cache_dir destination file w))
           = files w"
  using fast_path [OF already_cached_hit [OF assms]]
  by (simp add: permissions_def)

text \<open>
  C9: with a valid file at \<open>destination\<close> the call returns \<open>destination\<close> also when
  \<open>master_uris\<close> is empty; and whenever a call fails with \<open>ConfigError\<close>, the list was empty
  and the check of the cached file had completed without finding a valid file.
\<close>

theorem cached_file_needs_no_master_uris:
  "(files w destination = Some f
      \<and> calculateSha256 (EVP_sha256 ext) (stack_buffer ext) destination (Some f)
           = Inr (file_sha256 file)
    \<longrightarrow> downloadFileFromMaster ext [] ct t cache_dir destination file w
           = (Inr destination, permissions destination NIX_TASK_FILE_PERMS w))
   \<and> (fst (downloadFileFromMaster ext master_uris ct t cache_dir destination file w)
           = Inl (ProcessingError ConfigError text)
    \<longrightarrow> master_uris = []
        \<and> already_cached ext destination (file_sha256 file) w = Inr False)"
proof (intro conjI impI)
  assume "files w destination = Some f
      \<and> calculateSha256 (EVP_sha256 ext) (stack_buffer ext) destination (Some f)
           = Inr (file_sha256 file)"
  then have h: "files w destination = Some f"
      "calculateSha256 (EVP_sha256 ext) (stack_buffer ext) destination (Some f)
         = Inr (file_sha256 file)"
    by simp_all
  show "downloadFileFromMaster ext [] ct t cache_dir destination file w
           = (Inr destination, permissions destination NIX_TASK_FILE_PERMS w)"
    by (rule fast_path [OF already_cached_hit [OF h]])
next
  assume a: "fst (downloadFileFromMaster ext master_uris ct t cache_dir destination file w)
           = Inl (ProcessingError ConfigError text)"
  show c: "already_cached ext destination (file_sha256 file) w = Inr False"
  proof (cases "already_cached ext destination (file_sha256 file) w")
    case (Inl e)
    with a already_cached_error [OF Inl] show ?thesis
      by (simp add: downloadFileFromMaster_def)
  next
    case (Inr b)
    with a show ?thesis by (cases b) (simp_all add: downloadFileFromMaster_def)
  qed
  show "master_uris = []"
  proof (rule ccontr)
    assume ne: "master_uris \<noteq> []"
    obtain w' where "download_and_install ext master_uris ct t cache_dir destination file w
        = (Inl (ProcessingError ConfigError text), w')"
      using a slow_path [OF c, of master_uris ct t cache_dir]
      by (cases "download_and_install ext master_uris ct t cache_dir destination file w") simp
    from download_and_install_error [OF ne this] show False by simp
  qed
qed

text \<open>
  C3, as amended: with an empty \<open>master_uris\<close>, a call that finds no file at
  \<open>destination\<close>, or one whose digest differs from the \<open>sha256\<close> of the request, fails with
  \<open>ConfigError\<close> and leaves the world as it was; and whatever it finds at \<open>destination\<close>,
  a call with an empty \<open>master_uris\<close> hands no request to the client.
\<close>

theorem no_master_uris_after_miss:
  "(\<not> exists w destination
     \<or> (\<exists>d. calculateSha256 (EVP_sha256 ext) (stack_buffer ext) destination
               (files w destination) = Inr d
            \<and> d \<noteq> file_sha256 file)
    \<longrightarrow> downloadFileFromMaster ext [] ct t cache_dir destination file w
           = (Inl (ProcessingError ConfigError
                     ''Cannot download task. No master-uris were provided''), w))
   \<and> requests (snd (downloadFileFromMaster ext [] ct t cache_dir destination file w))
         = requests w"
proof (intro conjI impI)
  assume "\<not> exists w destination
     \<or> (\<exists>d. calculateSha256 (EVP_sha256 ext) (stack_buffer ext) destination
               (files w destination) = Inr d
            \<and> d \<noteq> file_sha256 file)"
  from slow_path [OF already_cached_miss [OF this], of "[]" ct t cache_dir]
  show "downloadFileFromMaster ext [] ct t cache_dir destination file w
           = (Inl (ProcessingError ConfigError
                     ''Cannot download task. No master-uris were provided''), w)"
    by (simp add: download_and_install_def)
next
  show "requests (snd (downloadFileFromMaster ext [] ct t cache_dir destination file w))
         = requests w"
    by (simp add: downloadFileFromMaster_def download_and_install_def permissions_def
             split: sum.splits bool.splits)
qed

text \<open>
  C1: when no valid file is cached, the download has succeeded and the digest of the
  temporary file differs from the \<open>sha256\<close> of the request, the call removes the temporary
  file and fails with \<open>IntegrityError\<close>; the file and the permissions at \<open>destination\<close>
  are what they were before the call. The temporary name is taken to differ from
  \<open>destination\<close>.
\<close>

theorem downloadFileFromMaster_digest_mismatch:
  assumes "already_cached ext destination (file_sha256 file) w = Inr False"
    and "tempname = path_append cache_dir (unique_path ext)"
    and "tempname \<noteq> destination"
    and "downloadFileWithCurl ext master_uris ct t tempname (file_uri file) w = (Inr (True, msg), w1)"
    and "calculateSha256 (EVP_sha256 ext) (stack_buffer ext) tempname (files w1 tempname) = Inr d"
    and "d \<noteq> file_sha256 file"
  shows "downloadFileFromMaster ext master_uris ct t cache_dir destination file w
           = (Inl (ProcessingError IntegrityError
                     (''The downloaded file '' @ quoted (path_filename (file_filename file))
                        @ '' has a SHA that differs from the provided SHA'')),
              remove tempname w1)
    \<and> files (remove tempname w1) tempname = None
    \<and> files (remove tempname w1) destination = files w destination
    \<and> perms (remove tempname w1) destination = perms w destination"
proof -
  have ne: "master_uris \<noteq> []"
    using download_loop_result [OF assms(4) [unfolded downloadFileWithCurl_def]] by auto
  have fr: "files w1 destination = files w destination \<and> perms w1 destination = perms w destination"
    using download_loop_frame [OF assms(3) [symmetric] assms(4) [unfolded downloadFileWithCurl_def]] .
  have "download_and_install ext master_uris ct t cache_dir destination file w
           = (Inl (ProcessingError IntegrityError
                     (''The downloaded file '' @ quoted (path_filename (file_filename file))
                        @ '' has a SHA that differs from the provided SHA'')),
              remove tempname w1)"
    using ne assms(4,5,6) unfolding assms(2)
    by (simp add: download_and_install_def Let_def)
  then show ?thesis
    using slow_path [OF assms(1), of master_uris ct t cache_dir] fr assms(3)
    by (simp add: remove_def)
qed

section \<open>The functions run on the platform\<close>

lemmas platform_defs =
  ext0_def ext1_def w0_def w_cached_def uri0_def file0_def download0_def download1_def
  tmp0_def w_busy_def w_good_def w_evil_def

lemmas run_defs =
  downloadFileWithCurl_def createUrlEndpoint_def call_download_file_def make_request_def
  try_block_def exists_def LOG_WARNING_def

lemma busy_text_eq: "failure_text ''https://busy/task'' (Response 503 ''busy'') = busy_text"
  by (simp add: failure_text_def busy_text_def digits.simps)

lemma run_busy:
  "downloadFileWithCurl ext0 [''https://busy''] 5 30 tmp0 uri0 w0 = (Inr (False, busy_text), w_busy)"
  by (simp add: platform_defs run_defs busy_text_def digits.simps)

lemma run_evil:
  "downloadFileWithCurl ext0 [''https://evil''] 5 30 tmp0 uri0 w0 = (Inr (True, []), w_evil)"
  by (simp add: platform_defs run_defs)

lemma call_down:
  "call_download_file ext0 (make_request ''https://down'' (createUrlEndpoint ext0 uri0) 5 30) tmp0
     NIX_TASK_FILE_PERMS w_busy
   = (Http_request_exception ''Could not connect'',
      w_busy\<lparr>client := 2,
              requests := requests w_busy @ [make_request ''https://down'' ''/task'' 5 30]\<rparr>)"
  by (simp add: platform_defs run_defs)

lemma call_good:
  "call_download_file ext0 (make_request ''https://good'' ''/task'' 5 30) tmp0
     NIX_TASK_FILE_PERMS w_busy
   = (Response 200 [], w_good)"
  by (simp add: platform_defs run_defs)


lemma digest_cached:
  "calculateSha256 (EVP_sha256 ext0) (stack_buffer ext0) ''/cache/task''
     (Some \<lparr>bytes = [1, 2, 3], io_error = False\<rparr>) = Inr (file_sha256 file0)"
  by (simp add: calculateSha256_readable file0_def ext0_def)

lemma last_lower_hex:
  "lower_hex (bs @ [b]) = lower_hex bs @ [lower_hex_digit (unat b div 16), lower_hex_digit (unat b mod 16)]"
  by (simp add: lower_hex_def)

lemma last_sha256_hex:
  "last (sha256_hex md bs) = lower_hex_digit (unat (ucast (md bs) :: byte) mod 16)"
proof -
  have "[0..<32] = [0..<31] @ [31::nat]"
    using upt_Suc_append [of 0 31] by simp
  then have "digest_bytes (md bs)
      = map (\<lambda>i. ucast (drop_bit (8 * (31 - i)) (md bs))) [0..<31] @ [ucast (md bs)]"
    by (simp add: digest_bytes_def)
  then show ?thesis
    by (simp add: sha256_hex_def last_lower_hex)
qed

lemma digest_differs: "sha256_hex md0 [1] \<noteq> file_sha256 file0"
proof
  assume "sha256_hex md0 [1] = file_sha256 file0"
  then have "last (sha256_hex md0 [1]) = last (sha256_hex md0 [1, 2, 3])"
    by (simp add: file0_def)
  then show False
    by (simp add: last_sha256_hex md0_def lower_hex_digit_def)
qed

theorem createUrlEndpoint_shape_witness:
  "[(''b'', ''2''), (''a b'', ''1&2'')] \<noteq> []
   \<and> distinct (map fst [(''b'', ''2''), (''a b'', ''1&2'')])
   \<and> (\<forall>s. CHR ''?'' \<notin> set (curl_escaped_string ext0 s)
           \<and> CHR ''&'' \<notin> set (curl_escaped_string ext0 s))
   \<and> createUrlEndpoint ext0
         \<lparr>uri_path = ''/tasks/run'', uri_params = Some [(''b'', ''2''), (''a b'', ''1&2'')]\<rparr>
       = ''/tasks/run?b=2&a%20b=1%262''
   \<and> last (createUrlEndpoint ext0
         \<lparr>uri_path = ''/tasks/run'', uri_params = Some [(''b'', ''2''), (''a b'', ''1&2'')]\<rparr>)
       \<noteq> CHR ''&''"
proof -
  have e: "curl_escaped_string ext0 = percent_encode" by (simp add: ext0_def)
  have h: "\<forall>s. CHR ''?'' \<notin> set (curl_escaped_string ext0 s)
           \<and> CHR ''&'' \<notin> set (curl_escaped_string ext0 s)"
    unfolding e using percent_encode_reserved by blast
  have v: "''/tasks/run'' @ ''?'' @ join ''&'' (encoded_pairs percent_encode
              [(''b'', ''2''), (''a b'', ''1&2'')]) = ''/tasks/run?b=2&a%20b=1%262''"
    by (simp add: encoded_pairs_def percent_encode_def unreserved_def hex_digit_def)
  show ?thesis
    using createUrlEndpoint_shape [of ext0 "''/tasks/run''" "[(''b'', ''2''), (''a b'', ''1&2'')]"] h
    unfolding e v by simp
qed

theorem downloadFileFromMaster_fast_path_witness:
  "files w_cached ''/cache/task'' = Some \<lparr>bytes = [1, 2, 3], io_error = False\<rparr>
   \<and> calculateSha256 (EVP_sha256 ext0) (stack_buffer ext0) ''/cache/task''
         (Some \<lparr>bytes = [1, 2, 3], io_error = False\<rparr>) = Inr (file_sha256 file0)
   \<and> downloadFileFromMaster ext0 [''https://good''] 5 30 ''/cache'' ''/cache/task'' file0 w_cached
       = (Inr ''/cache/task'',
          w_cached\<lparr>perms := (perms w_cached)(''/cache/task'' \<mapsto> NIX_TASK_FILE_PERMS)\<rparr>)
   \<and> requests (snd (downloadFileFromMaster ext0 [''https://good''] 5 30 ''/cache'' ''/cache/task''
         file0 w_cached)) = []"
proof -
  have h: "files w_cached ''/cache/task'' = Some \<lparr>bytes = [1, 2, 3], io_error = False\<rparr>"
    by (simp add: w_cached_def w0_def)
  have r: "requests w_cached = []" by (simp add: w_cached_def w0_def)
  show ?thesis
    using h digest_cached
      downloadFileFromMaster_fast_path [OF h digest_cached, of "[''https://good'']" 5 30 "''/cache''"]
    by (simp add: r)
qed

theorem cached_file_needs_no_master_uris_witness:
  "files w_cached ''/cache/task'' = Some \<lparr>bytes = [1, 2, 3], io_error = False\<rparr>
   \<and> calculateSha256 (EVP_sha256 ext0) (stack_buffer ext0) ''/cache/task''
         (Some \<lparr>bytes = [1, 2, 3], io_error = False\<rparr>) = Inr (file_sha256 file0)
   \<and> downloadFileFromMaster ext0 [] 5 30 ''/cache'' ''/cache/task'' file0 w_cached
       = (Inr ''/cache/task'', permissions ''/cache/task'' NIX_TASK_FILE_PERMS w_cached)
   \<and> fst (downloadFileFromMaster ext0 [] 5 30 ''/cache'' ''/cache/task'' file0 w0)
       = Inl (ProcessingError ConfigError ''Cannot download task. No master-uris were provided'')
   \<and> already_cached ext0 ''/cache/task'' (file_sha256 file0) w0 = Inr False"
proof -
  have h: "files w_cached ''/cache/task'' = Some \<lparr>bytes = [1, 2, 3], io_error = False\<rparr>"
    by (simp add: w_cached_def w0_def)
  have c: "fst (downloadFileFromMaster ext0 [] 5 30 ''/cache'' ''/cache/task'' file0 w0)
       = Inl (ProcessingError ConfigError ''Cannot download task. No master-uris were provided'')"
    by (simp add: downloadFileFromMaster_def already_cached_def exists_def w0_def
          download_and_install_def)
  show ?thesis
    using h digest_cached c
      cached_file_needs_no_master_uris [of w_cached "''/cache/task''"
         "\<lparr>bytes = [1, 2, 3], io_error = False\<rparr>" ext0 file0 5 30 "''/cache''" "[]"
         "''Cannot download task. No master-uris were provided''"]
      cached_file_needs_no_master_uris [of w0 "''/cache/task''"
         "\<lparr>bytes = [1, 2, 3], io_error = False\<rparr>" ext0 file0 5 30 "''/cache''" "[]"
         "''Cannot download task. No master-uris were provided''"]
    by simp
qed

text \<open>
  With an empty list of master URIs and a valid file already at the destination the call
  does not fail: it returns the destination and sets its permissions.
\<close>

theorem empty_master_uris_counterexample:
  "downloadFileFromMaster ext0 [] 5 30 ''/cache'' ''/cache/task'' file0 w_cached
     = (Inr ''/cache/task'',
        w_cached\<lparr>perms := [''/cache/task'' \<mapsto> 488]\<rparr>)"
proof -
  have h: "files w_cached ''/cache/task'' = Some \<lparr>bytes = [1, 2, 3], io_error = False\<rparr>"
    by (simp add: w_cached_def w0_def)
  show ?thesis
    using fast_path [OF already_cached_hit [OF h digest_cached], of "[]" 5 30 "''/cache''"]
    by (simp add: permissions_def NIX_TASK_FILE_PERMS_def NIX_DIR_PERMS_def w_cached_def w0_def)
qed

theorem no_master_uris_after_miss_witness:
  "\<not> exists w0 ''/cache/task''
   \<and> downloadFileFromMaster ext0 [] 5 30 ''/cache'' ''/cache/task'' file0 w0
       = (Inl (ProcessingError ConfigError
                 ''Cannot download task. No master-uris were provided''), w0)"
proof -
  have h: "\<not> exists w0 ''/cache/task''" by (simp add: exists_def w0_def)
  show ?thesis
    using h no_master_uris_after_miss [of w0 "''/cache/task''" ext0 file0 5 30 "''/cache''"]
    by simp
qed

theorem downloadFileFromMaster_digest_mismatch_witness:
  "already_cached ext0 ''/cache/task'' (file_sha256 file0) w0 = Inr False
   \<and> tmp0 = path_append ''/cache'' (unique_path ext0)
   \<and> tmp0 \<noteq> ''/cache/task''
   \<and> downloadFileWithCurl ext0 [''https://evil''] 5 30 tmp0 (file_uri file0) w0
       = (Inr (True, []), w_evil)
   \<and> calculateSha256 (EVP_sha256 ext0) (stack_buffer ext0) tmp0 (files w_evil tmp0)
       = Inr (sha256_hex md0 [1])
   \<and> sha256_hex md0 [1] \<noteq> file_sha256 file0
   \<and> downloadFileFromMaster ext0 [''https://evil''] 5 30 ''/cache'' ''/cache/task'' file0 w0
       = (Inl (ProcessingError IntegrityError
                 (''The downloaded file '' @ quoted ''task''
                    @ '' has a SHA that differs from the provided SHA'')),
          remove tmp0 w_evil)
   \<and> files (remove tmp0 w_evil) tmp0 = None
   \<and> files (remove tmp0 w_evil) ''/cache/task'' = None"
proof -
  have h1: "already_cached ext0 ''/cache/task'' (file_sha256 file0) w0 = Inr False"
    by (simp add: already_cached_def exists_def w0_def)
  have h2: "tmp0 = path_append ''/cache'' (unique_path ext0)"
    by (simp add: tmp0_def path_append_def ext0_def)
  have h3: "tmp0 \<noteq> ''/cache/task''" by (simp add: tmp0_def)
  have h4: "downloadFileWithCurl ext0 [''https://evil''] 5 30 tmp0 (file_uri file0) w0
       = (Inr (True, []), w_evil)"
    using run_evil by (simp add: file0_def)
  have h5: "calculateSha256 (EVP_sha256 ext0) (stack_buffer ext0) tmp0 (files w_evil tmp0)
       = Inr (sha256_hex md0 [1])"
    by (simp add: w_evil_def calculateSha256_readable ext0_def)
  have n: "path_filename (file_filename file0) = ''task''"
    by (simp add: file0_def path_filename_def)
  have w: "files w0 ''/cache/task'' = None" by (simp add: w0_def)
  show ?thesis
    using h1 h2 h3 h4 h5 digest_differs
      downloadFileFromMaster_digest_mismatch [OF h1 h2 h3 h4 h5 digest_differs]
    by (simp add: n w)
qed

theorem fatal_failure_aborts_witness:
  "downloadFileWithCurl ext0 [''https://busy''] 5 30 tmp0 uri0 w0 = (Inr (False, busy_text), w_busy)
   \<and> call_download_file ext0 (make_request ''https://down'' (createUrlEndpoint ext0 uri0) 5 30)
         tmp0 NIX_TASK_FILE_PERMS w_busy
       = (Http_request_exception ''Could not connect'',
          w_busy\<lparr>client := 2,
                  requests := requests w_busy @ [make_request ''https://down'' ''/task'' 5 30]\<rparr>)
   \<and> fatal (Http_request_exception ''Could not connect'')
   \<and> fst (downloadFileWithCurl ext0 ([''https://busy''] @ ''https://down'' # [''https://good''])
            5 30 tmp0 uri0 w0)
       = Inl (ProcessingError DownloadError
                ''Downloading the task file failed. Reason: Could not connect'')
   \<and> map req_url (requests (snd (downloadFileWithCurl ext0
            ([''https://busy''] @ ''https://down'' # [''https://good'']) 5 30 tmp0 uri0 w0)))
       = [''https://busy/task'', ''https://down/task'']"
proof -
  have f: "fatal (Http_request_exception ''Could not connect'')" by (simp add: fatal_def)
  have q: "map req_url (requests w_busy) = [''https://busy/task'']"
    by (simp add: w_busy_def)
  have ep: "createUrlEndpoint ext0 uri0 = ''/task''"
    by (simp add: createUrlEndpoint_def uri0_def)
  have q0: "requests w0 = []" by (simp add: w0_def)
  show ?thesis
    using run_busy call_down f
      fatal_failure_aborts [OF run_busy call_down f, of "[''https://good'']"]
    by (simp add: failure_text_def q ep q0)
qed


theorem temp_file_decides_outcome_witness:
  "call_download_file ext0 (make_request ''https://good'' ''/task'' 5 30) tmp0
       NIX_TASK_FILE_PERMS w_busy = (Response 200 [], w_good)
   \<and> \<not> fatal (Response 200 []) \<and> exists w_good tmp0
   \<and> fst (download_loop ext0 5 30 tmp0 ''/task'' [''https://good'', ''https://evil'']
            (False, busy_text) w_busy) = Inr (True, busy_text)
   \<and> requests (snd (download_loop ext0 5 30 tmp0 ''/task'' [''https://good'', ''https://evil'']
            (False, busy_text) w_busy))
       = requests w_busy @ [make_request ''https://good'' ''/task'' 5 30]
   \<and> downloadFileWithCurl ext0 [''https://busy''] 5 30 tmp0 uri0 w0
       = (Inr (False, busy_text), w_busy)
   \<and> \<not> exists w_busy tmp0
   \<and> requests w_busy
       = requests w0 @ map (\<lambda>m. make_request m (createUrlEndpoint ext0 uri0) 5 30) [''https://busy'']"
proof -
  have nf: "\<not> fatal (Response 200 [])" by (simp add: fatal_def)
  have nl: "mirror_local (Response 200 []) = False" by (simp add: mirror_local_def)
  have e: "exists w_good tmp0" by (simp add: exists_def w_good_def)
  note T1 = temp_file_decides_outcome [of ext0 "''https://good''" "''/task''" 5 30 tmp0 w_busy
        "Response 200 []" w_good "[''https://evil'']" "(False, busy_text)"]
  note T2 = temp_file_decides_outcome [of ext0 _ _ 5 30 tmp0 w0 _ _ _ _
        "[''https://busy'']" uri0 False busy_text w_busy]
  from T1 [THEN conjunct1, THEN mp, OF conjI [OF call_good conjI [OF nf e]]]
  have a: "fst (download_loop ext0 5 30 tmp0 ''/task'' [''https://good'', ''https://evil'']
              (False, busy_text) w_busy)
        = Inr (True, if mirror_local (Response 200 [])
                     then failure_text (''https://good'' @ ''/task'') (Response 200 [])
                     else snd (False, busy_text))"
    and b: "requests (snd (download_loop ext0 5 30 tmp0 ''/task'' [''https://good'', ''https://evil'']
            (False, busy_text) w_busy))
       = requests w_busy @ [make_request ''https://good'' ''/task'' 5 30]"
    by (rule conjunct1, rule conjunct2)
  from T2 [THEN conjunct2, THEN mp, OF run_busy]
  have c: "[''https://busy''] \<noteq> [] \<longrightarrow> False = exists w_busy tmp0"
    and d: "\<not> False \<longrightarrow> requests w_busy
       = requests w0 @ map (\<lambda>m. make_request m (createUrlEndpoint ext0 uri0) 5 30) [''https://busy'']"
    by (rule conjunct1, rule conjunct2 [THEN conjunct2, THEN conjunct1])
  have a': "fst (download_loop ext0 5 30 tmp0 ''/task'' [''https://good'', ''https://evil'']
              (False, busy_text) w_busy) = Inr (True, busy_text)"
    using a unfolding nl if_False snd_conv .
  have c': "\<not> exists w_busy tmp0" using c by simp
  have d': "requests w_busy
       = requests w0 @ map (\<lambda>m. make_request m (createUrlEndpoint ext0 uri0) 5 30) [''https://busy'']"
    using d by simp
  show ?thesis
    using call_good nf e a' b run_busy c' d' by (intro conjI)
qed

end
